theory Spec2Isabelle
  imports Main "HOL-Library.Word" "HOL-Library.Sublist"
begin

unbundle bit_operations_syntax

chapter \<open>Shortscan: an embedding of the scanner\<close>

text \<open>
  The development follows the Go sources: \<^verbatim>\<open>pkg/levenshtein/levenshtein.go\<close>,
  \<^verbatim>\<open>pkg/shortutil\<close> (checksums and the 8.3 name generator) and
  \<^verbatim>\<open>pkg/shortscan/shortscan.go\<close> (fetch, the enumerator, the vulnerability probe,
  the wordlist loader and the URL queue). All definitions come first, the proofs follow.
\<close>

section \<open>Definitions\<close>

subsection \<open>pkg/maths\<close>

text \<open>
  Modelled from the spec: \<^verbatim>\<open>maths.Min\<close> lives in \<^verbatim>\<open>pkg/maths\<close>, which is not among
  the sources at hand. The specification uses it as the minimum of two integers
  (\<^verbatim>\<open>stem[:min(len,6)]\<close>); the arguments that occur are lengths and distances, which
  are not negative.
\<close>

definition maths_Min :: "nat \<Rightarrow> nat \<Rightarrow> nat" where
  "maths_Min a b = (if a < b then a else b)"

subsection \<open>pkg/levenshtein: Distance\<close>

text \<open>
  \<^verbatim>\<open>Distance\<close> ranges over the runes of both strings, so the model takes the two rune
  sequences; the element type is left open. The row \<^verbatim>\<open>f\<close> is a list updated by index;
  every index the loops use lies inside the row (it has one more cell than \<^verbatim>\<open>b\<close> has
  runes), so no access can panic. The cells are bounded by the longer length, far from
  the limits of Go's \<^verbatim>\<open>int\<close>, and are natural numbers here.

  \<^verbatim>\<open>inner_loop ca bs j fj1 f\<close> is the loop over \<^verbatim>\<open>b\<close> for one rune \<^verbatim>\<open>ca\<close> of
  \<^verbatim>\<open>a\<close>, with the loop variables \<^verbatim>\<open>j\<close>, \<^verbatim>\<open>fj1\<close> and the row as arguments.
\<close>

fun inner_loop :: "'a \<Rightarrow> 'a list \<Rightarrow> nat \<Rightarrow> nat \<Rightarrow> nat list \<Rightarrow> nat list" where
  "inner_loop ca [] j fj1 f = f"
| "inner_loop ca (cb # bs) j fj1 f =
     (let mn = maths_Min (f ! j + 1) (f ! (j - 1) + 1);
          mn' = (if cb \<noteq> ca then maths_Min mn (fj1 + 1) else maths_Min mn fj1)
      in inner_loop ca bs (j + 1) (f ! j) (f[j := mn']))"

fun outer_loop :: "'a list \<Rightarrow> 'a list \<Rightarrow> nat list \<Rightarrow> nat list" where
  "outer_loop [] b f = f"
| "outer_loop (ca # as) b f =
     outer_loop as b (inner_loop ca b 1 (f ! 0) (f[0 := f ! 0 + 1]))"

definition Distance :: "'a list \<Rightarrow> 'a list \<Rightarrow> nat" where
  "Distance a b =
     (let f = [0 ..< length b + 1];
          f' = outer_loop a b f
      in f' ! (length f' - 1))"

text \<open>
  The recurrence the row computes, read off the loop body: the three candidates are the
  cell above plus one, the cell to the left plus one, and the diagonal cell plus the cost
  of the two runes. It recurses on the fronts of two reversed sequences.
\<close>

fun lev :: "'a list \<Rightarrow> 'a list \<Rightarrow> nat" where
  "lev [] ys = length ys"
| "lev (x # xs) [] = Suc (length xs)"
| "lev (x # xs) (y # ys) =
     min (min (lev xs (y # ys) + 1) (lev (x # xs) ys + 1))
         (lev xs ys + (if x = y then 0 else 1))"

definition row_cell :: "'a list \<Rightarrow> 'a list \<Rightarrow> nat" where
  "row_cell xs ys = lev (rev xs) (rev ys)"

subsection \<open>Go strings\<close>

text \<open>
  A Go string is a byte sequence; \<^typ>\<open>string\<close> holds its bytes, and \<^verbatim>\<open>len\<close> of a Go
  string is \<^const>\<open>length\<close>. Where the code ranges over a string it sees runes
  (\<^verbatim>\<open>int32\<close> code points); a rune is a \<^typ>\<open>32 word\<close>.

  \<^verbatim>\<open>strings.ToUpper\<close> and \<^verbatim>\<open>strings.ToLower\<close> are given on ASCII text, where Go maps
  the letters byte by byte and leaves every other byte alone. Bytes from \<^verbatim>\<open>0x80\<close> on pass
  through unchanged here; Go would decode them and consult the Unicode tables.
\<close>

type_synonym rune = "32 word"

definition runes_of :: "string \<Rightarrow> rune list" where
  "runes_of s = map of_char s"

definition upper_byte :: "char \<Rightarrow> char" where
  "upper_byte c =
     (let n = (of_char c :: nat) in if 97 \<le> n \<and> n \<le> 122 then char_of (n - 32) else c)"

definition lower_byte :: "char \<Rightarrow> char" where
  "lower_byte c =
     (let n = (of_char c :: nat) in if 65 \<le> n \<and> n \<le> 90 then char_of (n + 32) else c)"

definition ToUpper :: "string \<Rightarrow> string" where
  "ToUpper s = map upper_byte s"

definition ToLower :: "string \<Rightarrow> string" where
  "ToLower s = map lower_byte s"

definition TrimSuffix :: "string \<Rightarrow> string \<Rightarrow> string" where
  "TrimSuffix s suf = (if suffix suf s then take (length s - length suf) s else s)"

fun Contains :: "string \<Rightarrow> string \<Rightarrow> bool" where
  "Contains [] substr = (substr = [])"
| "Contains (c # s) substr = (prefix substr (c # s) \<or> Contains s substr)"

subsection \<open>pkg/shortutil: Gen8dot3\<close>

text \<open>
  \<^verbatim>\<open>shortReplacer\<close> is a \<^verbatim>\<open>strings.NewReplacer\<close> over single bytes: space and dot vanish,
  each of \<^verbatim>\<open>: + , ; = [ ]\<close> becomes an underscore.
\<close>

definition replace_byte :: "char \<Rightarrow> string" where
  "replace_byte c =
     (if c = CHR '' '' \<or> c = CHR ''.'' then []
      else if c \<in> set '':+,;=[]'' then ''_''
      else [c])"

definition shortReplacer :: "string \<Rightarrow> string" where
  "shortReplacer s = concat (map replace_byte s)"

definition Gen8dot3 :: "string \<Rightarrow> string \<Rightarrow> bool \<times> string \<times> string" where
  "Gen8dot3 file_name ext =
     (let fu = ToUpper file_name;
          fr = shortReplacer fu;
          eu = ToUpper ext;
          er = shortReplacer eu;
          r = (length file_name > 8 \<or> length ext > 3 \<or> fu \<noteq> fr \<or> eu \<noteq> er)
      in (r, take (maths_Min (length fr) 6) fr, take (maths_Min (length er) 3) er))"

subsection \<open>pkg/shortutil: Checksum\<close>

text \<open>
  The accumulator loop of \<^verbatim>\<open>Checksum\<close> ranges over the runes of the file name;
  \<^verbatim>\<open>uint16(c)\<close> keeps the low sixteen bits of the rune.
\<close>

definition accumulate :: "rune list \<Rightarrow> 16 word" where
  "accumulate f = foldl (\<lambda>ck c. ck * 0x25 + ucast c) 0 f"

text \<open>
  The product \<^verbatim>\<open>int32(ck) * 314159269\<close> is a wrapping multiplication of 32-bit words.
  It is then converted to \<^verbatim>\<open>float64\<close>, passed through \<^verbatim>\<open>math.Abs\<close> and converted back.

  A \<^verbatim>\<open>float64\<close> has a significand of 53 bits. The values that occur here are integers,
  and a \<^verbatim>\<open>float64\<close> of magnitude \<open>2\<^sup>5\<^sup>2\<close> or more is an integer too, so the model holds
  such a float as the integer it denotes. \<^verbatim>\<open>float64_of_int\<close> is the conversion of an
  integer: exact below \<open>2\<^sup>5\<^sup>3\<close>, otherwise rounded to 53 significant bits, ties to even
  (magnitudes beyond the range of the exponent do not arise from 32-bit operands).
  Converting a float back to \<^verbatim>\<open>int32\<close> is defined by Go only when the value fits;
  otherwise the result depends on the platform, which is \<open>None\<close> here.
\<close>

fun bit_length :: "nat \<Rightarrow> nat" where
  "bit_length n = (if n = 0 then 0 else Suc (bit_length (n div 2)))"

declare bit_length.simps [simp del]

definition float64_of_int :: "int \<Rightarrow> int" where
  "float64_of_int x =
     (let a = \<bar>x\<bar> in
      if a < 2 ^ 53 then x
      else
        let e = bit_length (nat a) - 53;
            q = a div 2 ^ e;
            r = a mod 2 ^ e;
            h = 2 ^ (e - 1);
            q' = (if r > h \<or> (r = h \<and> odd q) then q + 1 else q)
        in sgn x * (q' * 2 ^ e))"

definition math_Abs :: "int \<Rightarrow> int" where
  "math_Abs v = \<bar>v\<bar>"

definition int32_of_float64 :: "int \<Rightarrow> 32 word option" where
  "int32_of_float64 v =
     (if - (2 ^ 31) \<le> v \<and> v < 2 ^ 31 then Some (word_of_int v) else None)"

definition Checksum_t :: "16 word \<Rightarrow> 32 word option" where
  "Checksum_t ck =
     int32_of_float64 (math_Abs (float64_of_int (sint ((ucast ck :: 32 word) * 314159269))))"

definition nibble_swap :: "16 word \<Rightarrow> 16 word" where
  "nibble_swap ck =
     drop_bit 12 (ck AND 0xf000) OR drop_bit 4 (ck AND 0x0f00)
       OR push_bit 4 (ck AND 0x00f0) OR push_bit 12 (ck AND 0x000f)"

definition hex_digit :: "nat \<Rightarrow> char" where
  "hex_digit d = ''0123456789ABCDEF'' ! (d mod 16)"

definition Sprintf_04X :: "16 word \<Rightarrow> string" where
  "Sprintf_04X ck =
     (let n = unat ck
      in [hex_digit (n div 4096), hex_digit (n div 256), hex_digit (n div 16), hex_digit n])"

definition Checksum :: "rune list \<Rightarrow> string option" where
  "Checksum f =
     (case Checksum_t (accumulate f) of
        None \<Rightarrow> None
      | Some t \<Rightarrow>
          (let t' = t - ucast (drop_bit 60 ((scast t :: 64 word) * 1152921497) * 1000000007);
               ck = (ucast t' :: 16 word)
           in Some (Sprintf_04X (nibble_swap ck))))"

subsection \<open>pkg/shortscan: fetch\<close>

text \<open>
  \<^verbatim>\<open>log.Fatal\<close> ends the process, and so does a nil dereference; a function that can do
  either returns an \<open>exit\<close>.
\<close>

datatype 'a exit = Fatal string | Panic string | Return 'a

record httpStats =
  bytesTx :: nat
  bytesRx :: nat
  requests :: nat
  retries :: nat

record response =
  StatusCode :: nat
  Location :: string

type_synonym error = string

text \<open>
  What \<^verbatim>\<open>fetch\<close> meets outside the program: the error of \<^verbatim>\<open>http.NewRequest\<close> (if any),
  the outcome of the \<open>n\<close>-th call of \<^verbatim>\<open>hc.Do\<close> for this request (a response or an error,
  as the two results Go returns), and the sizes of the two dumps or their errors. The
  custom headers of the command line are left out; a malformed one is fatal before any
  request is made.
\<close>

record transport =
  NewRequest :: "error option"
  Do :: "nat \<Rightarrow> response option \<times> error option"
  DumpRequestOut :: "error + nat"
  DumpResponse :: "error + nat"

text \<open>
  The request loop \<^verbatim>\<open>for t = 0; t < 4; t++\<close>. Its exit test reads \<^verbatim>\<open>err\<close>, the
  variable that holds the result of \<^verbatim>\<open>http.NewRequest\<close>, while the result of
  \<^verbatim>\<open>hc.Do\<close> goes to \<^verbatim>\<open>rerr\<close>. The seconds handed to \<^verbatim>\<open>time.Sleep\<close> are collected
  in \<open>slept\<close>.
\<close>

function request_loop ::
  "error option \<Rightarrow> (nat \<Rightarrow> response option \<times> error option) \<Rightarrow>
   nat \<Rightarrow> response option \<Rightarrow> error option \<Rightarrow> nat list \<Rightarrow>
   nat \<times> response option \<times> error option \<times> nat list" where
  "request_loop err do_request t res rerr slept =
     (if t < 4 then
        (let (res', rerr') = do_request t
         in if err = None then (t, res', rerr', slept)
            else request_loop err do_request (t + 1) res' rerr' (slept @ [t * 2]))
      else (t, res, rerr, slept))"
  by pat_completeness auto
termination
  by (relation "measure (\<lambda>(err, do_request, t, res, rerr, slept). 4 - t)") auto

declare request_loop.simps [simp del]

definition fetch ::
  "transport \<Rightarrow> httpStats \<Rightarrow> ((response option \<times> error option) \<times> httpStats \<times> nat list) exit" where
  "fetch tr st =
     (case NewRequest tr of
        Some e \<Rightarrow> Fatal ''Unable to create request object''
      | None \<Rightarrow>
          (let (t, res, rerr, slept) = request_loop (NewRequest tr) (Do tr) 0 None None []
           in case res of
                None \<Rightarrow> Return ((None, rerr), st, slept)
              | Some r \<Rightarrow>
                  (let st1 = st\<lparr>requests := requests st + 1, retries := retries st + t\<rparr>
                   in case DumpRequestOut tr of
                        Inl e \<Rightarrow> Fatal ''Error dumping request''
                      | Inr tx \<Rightarrow>
                          (case DumpResponse tr of
                             Inl e \<Rightarrow> Fatal ''Error dumping response''
                           | Inr rx \<Rightarrow>
                               Return ((Some r, None),
                                 st1\<lparr>bytesTx := bytesTx st1 + tx, bytesRx := bytesRx st1 + rx\<rparr>,
                                 slept)))))"

text \<open>A transport whose first attempt fails and whose later attempts would succeed.\<close>

definition flaky :: transport where
  "flaky =
     \<lparr>NewRequest = None,
      Do = (\<lambda>n. if n = 0 then (None, Some ''connection reset'')
                 else (Some \<lparr>StatusCode = 200, Location = []\<rparr>, None)),
      DumpRequestOut = Inr 100,
      DumpResponse = Inr 200\<rparr>"

subsection \<open>pkg/shortscan: the enumerator\<close>

text \<open>
  The stem and the extension of a \<^verbatim>\<open>baseRequest\<close> grow by the string of one rune, by
  \<^verbatim>\<open>?\<close> and by \<^verbatim>\<open>.\<close>; the model keeps them as the sequence of their runes, so that
  characters can be counted. \<^verbatim>\<open>len\<close> of such a string is the number of its bytes: each
  rune counts with the length of its UTF-8 encoding, as \<^verbatim>\<open>string(char)\<close> produces it
  (an invalid rune is encoded as the three bytes of \<^verbatim>\<open>U+FFFD\<close>).
\<close>

definition utf8_len :: "rune \<Rightarrow> nat" where
  "utf8_len r =
     (let i = unat r in
      if i \<le> 0x7F then 1
      else if i \<le> 0x7FF then 2
      else if i > 0x10FFFF \<or> (0xD800 \<le> i \<and> i \<le> 0xDFFF) then 3
      else if i \<le> 0xFFFF then 3
      else 4)"

definition len :: "rune list \<Rightarrow> nat" where
  "len s = sum_list (map utf8_len s)"

record baseRequest =
  br_url :: string
  br_file :: "rune list"
  br_tilde :: string
  br_ext :: "rune list"

text \<open>
  Of \<^verbatim>\<open>attackConfig\<close> the fields the probe and the enumerator read and write. A Go map
  answers a missing key with the empty string.
\<close>

record attackConfig =
  ac_method :: string
  ac_suffix :: string
  ac_tildes :: "string list"
  ac_fileChars :: "string \<rightharpoonup> rune list"
  ac_extChars :: "string \<rightharpoonup> rune list"

definition lookup :: "(string \<rightharpoonup> rune list) \<Rightarrow> string \<Rightarrow> rune list" where
  "lookup m k = (case m k of None \<Rightarrow> [] | Some v \<Rightarrow> v)"

text \<open>
  The percent workaround: \<^verbatim>\<open>for i := 0; i < 2 && x < y; i++ { char += "?" }\<close>. Neither
  \<open>x\<close> nor \<open>y\<close> changes in the loop.
\<close>

function percent_loop :: "nat \<Rightarrow> nat \<Rightarrow> nat \<Rightarrow> rune list \<Rightarrow> rune list" where
  "percent_loop i x y char =
     (if i < 2 \<and> x < y then percent_loop (i + 1) x y (char @ runes_of ''?'') else char)"
  by pat_completeness auto
termination
  by (relation "measure (\<lambda>(i, x, y, char). 2 - i)") auto

declare percent_loop.simps [simp del]

definition percent_workaround :: "bool \<Rightarrow> baseRequest \<Rightarrow> rune list \<Rightarrow> rune list" where
  "percent_workaround extMode br char =
     (if char = runes_of ''%'' then
        (let (x, y) = (if extMode then (len (br_ext br), 1) else (len (br_file br), 4))
         in percent_loop 0 x y char)
      else char)"

text \<open>\<^verbatim>\<open>br.ext += char\<close> in extension mode, \<^verbatim>\<open>br.file += char\<close> otherwise.\<close>

definition add_char :: "bool \<Rightarrow> baseRequest \<Rightarrow> rune list \<Rightarrow> baseRequest" where
  "add_char extMode br char =
     (if extMode then br\<lparr>br_ext := br_ext br @ char\<rparr> else br\<lparr>br_file := br_file br @ char\<rparr>)"

text \<open>The guard of the recursion, "if the rabbit hole goes deeper".\<close>

definition deeper :: "bool \<Rightarrow> baseRequest \<Rightarrow> bool" where
  "deeper extMode br =
     ((extMode \<and> len (br_ext br) < 4) \<or> (\<not> extMode \<and> len (br_file br) < 6))"

text \<open>
  The search tree of \<^verbatim>\<open>enumerate\<close>. \<open>called\<close> holds of the requests \<^verbatim>\<open>enumerate\<close> is
  called with, \<open>probed\<close> of the requests a worker holds after it has appended its
  character, together with the mode the call computed. \<^verbatim>\<open>Scan\<close> calls \<^verbatim>\<open>enumerate\<close> once
  per tilde with an empty stem and extension; a call spawns a worker for every rune of
  the character set of its mode; a worker starts the extension search with \<^verbatim>\<open>.\<close> when
  the extension is empty, and calls \<^verbatim>\<open>enumerate\<close> again on its own request when the
  guard \<open>deeper\<close> holds. In the code each of the last two steps also waits for certain
  HTTP answers; the relation lets the server answer anything, so it contains every
  request a run can reach. The requests are passed by value, so the workers share none.
\<close>

inductive called :: "attackConfig \<Rightarrow> string \<Rightarrow> baseRequest \<Rightarrow> bool"
  and probed :: "attackConfig \<Rightarrow> string \<Rightarrow> bool \<Rightarrow> baseRequest \<Rightarrow> bool"
  for ac :: attackConfig and u :: string
where
  root: "tilde \<in> set (ac_tildes ac)
          \<Longrightarrow> called ac u \<lparr>br_url = u, br_file = [], br_tilde = tilde, br_ext = []\<rparr>"
| char: "called ac u br
          \<Longrightarrow> extMode = (len (br_ext br) > 0)
          \<Longrightarrow> chars = (if extMode then lookup (ac_extChars ac) (br_tilde br)
                        else lookup (ac_fileChars ac) (br_tilde br))
          \<Longrightarrow> c \<in> set chars
          \<Longrightarrow> probed ac u extMode (add_char extMode br (percent_workaround extMode br [c]))"
| extension: "probed ac u extMode br
          \<Longrightarrow> len (br_ext br) = 0
          \<Longrightarrow> called ac u (br\<lparr>br_ext := runes_of ''.''\<rparr>)"
| recurse: "probed ac u extMode br
          \<Longrightarrow> deeper extMode br
          \<Longrightarrow> called ac u br"

text \<open>
  The shape the data model gives a request: a stem of at most six characters, and an
  extension that is empty or a dot followed by at most three characters.
\<close>

definition name_ok :: "baseRequest \<Rightarrow> bool" where
  "name_ok br =
     (length (br_file br) \<le> 6 \<and>
      (br_ext br = [] \<or> (hd (br_ext br) = of_char CHR ''.'' \<and> length (tl (br_ext br)) \<le> 3)))"

text \<open>
  The invariant is stronger at a call than the shape it implies: a call in stem mode
  has a stem of fewer than six bytes, a call in extension mode an extension of fewer
  than four.
\<close>

definition call_inv :: "baseRequest \<Rightarrow> bool" where
  "call_inv br =
     (if br_ext br = [] then len (br_file br) < 6
      else length (br_file br) \<le> 6 \<and> hd (br_ext br) = of_char CHR ''.'' \<and> len (br_ext br) < 4)"

definition probe_inv :: "bool \<Rightarrow> baseRequest \<Rightarrow> bool" where
  "probe_inv extMode br = (name_ok br \<and> extMode = (br_ext br \<noteq> []))"

text \<open>A sample configuration: one tilde, and a stem alphabet of \<^verbatim>\<open>%\<close> and \<^verbatim>\<open>A\<close>.\<close>

definition sample_ac :: attackConfig where
  "sample_ac =
     \<lparr>ac_method = ''OPTIONS'', ac_suffix = ''/'', ac_tildes = [''~1''],
      ac_fileChars = [''~1'' \<mapsto> runes_of ''%A''], ac_extChars = Map.empty\<rparr>"

definition sample_br :: "rune list \<Rightarrow> baseRequest" where
  "sample_br stem = \<lparr>br_url = ''http://host/'', br_file = stem, br_tilde = ''~1'', br_ext = []\<rparr>"

subsection \<open>pkg/shortscan: the URL Scan works on\<close>

text \<open>
  The first statements of the loop body of \<^verbatim>\<open>Scan\<close>: one trailing slash is trimmed and
  one appended, and a URL without \<^verbatim>\<open>://\<close> is given the scheme \<^verbatim>\<open>https\<close>.
\<close>

definition Scan_url :: "string \<Rightarrow> string" where
  "Scan_url u =
     (let url = TrimSuffix u ''/'' @ ''/''
      in if \<not> Contains url ''://'' then ''https://'' @ url else url)"

text \<open>The number of slashes a string ends with.\<close>

definition trailing_slashes :: "string \<Rightarrow> nat" where
  "trailing_slashes s = length (takeWhile (\<lambda>c. c = CHR ''/'') (rev s))"

subsection \<open>pkg/shortscan: reading the wordlist\<close>

text \<open>
  The loop of \<^verbatim>\<open>Run\<close> that reads the wordlist, over the lines the scanner yields.
  \<^verbatim>\<open>n\<close> counts the records added so far, not the lines read: a skipped line leaves it
  alone. \<^verbatim>\<open>strings.Count\<close>, \<^verbatim>\<open>strings.Split\<close> and \<^verbatim>\<open>strings.LastIndex\<close> are used with
  a one-byte separator only and take that byte.
\<close>

definition rainbowMagic :: string where
  "rainbowMagic = ''#SHORTSCAN#''"

record wordlistRecord =
  checksums :: string
  filename :: string
  extension :: string
  filename83 :: string
  extension83 :: string

record wordlistConfig =
  wordlist :: "wordlistRecord list"
  isRainbow :: bool

definition tab :: char where
  "tab = CHR 0x09"

definition Count :: "string \<Rightarrow> char \<Rightarrow> nat" where
  "Count s sep = length (filter (\<lambda>c. c = sep) s)"

fun Split :: "string \<Rightarrow> char \<Rightarrow> string list" where
  "Split [] sep = [[]]"
| "Split (c # s) sep =
     (if c = sep then [] # Split s sep
      else (case Split s sep of [] \<Rightarrow> [[c]] | part # parts \<Rightarrow> (c # part) # parts))"

definition LastIndex :: "string \<Rightarrow> char \<Rightarrow> int" where
  "LastIndex s c =
     (if c \<in> set s then int (length s) - 1 - int (length (takeWhile (\<lambda>x. x \<noteq> c) (rev s)))
      else - 1)"

text \<open>The record of a line of a rainbow table, and of a line of a plain wordlist.\<close>

definition rainbow_record :: "string \<Rightarrow> wordlistRecord" where
  "rainbow_record line =
     (let c = Split line tab;
          f = c ! 3; e = c ! 4; f83 = c ! 1; e83 = c ! 2;
          e' = (if length e > 0 then ''.'' @ e else e)
      in \<lparr>checksums = c ! 0, filename = f, extension = e', filename83 = f83, extension83 = e83\<rparr>)"

definition plain_record :: "string \<Rightarrow> wordlistRecord" where
  "plain_record line =
     (let p = LastIndex line CHR ''.''
      in if p > 0 \<and> line ! 0 \<noteq> CHR ''.'' then
           (let f = take (nat p) line;
                e = drop (nat p) line;
                (r, f83, e83) = Gen8dot3 f e
            in \<lparr>checksums = [], filename = f, extension = e, filename83 = f83, extension83 = e83\<rparr>)
         else
           (let (r, f83, e83) = Gen8dot3 line []
            in \<lparr>checksums = [], filename = line, extension = [], filename83 = f83, extension83 = []\<rparr>))"

fun read_wordlist :: "string list \<Rightarrow> nat \<Rightarrow> wordlistConfig \<Rightarrow> wordlistConfig exit" where
  "read_wordlist [] n wc = Return wc"
| "read_wordlist (line # rest) n wc =
     (if n = 0 \<and> line = rainbowMagic then read_wordlist rest n (wc\<lparr>isRainbow := True\<rparr>)
      else if length line = 0 \<or> line ! 0 = CHR ''#'' then read_wordlist rest n wc
      else if isRainbow wc then
        (if Count line tab \<noteq> 4 then Fatal ''Wordlist entry invalid (incorrect tab count)''
         else read_wordlist rest (n + 1) (wc\<lparr>wordlist := wordlist wc @ [rainbow_record line]\<rparr>))
      else read_wordlist rest (n + 1) (wc\<lparr>wordlist := wordlist wc @ [plain_record line]\<rparr>))"

definition load_wordlist :: "string list \<Rightarrow> wordlistConfig exit" where
  "load_wordlist lines = read_wordlist lines 0 \<lparr>wordlist = [], isRainbow = False\<rparr>"

text \<open>
  The specification speaks of the first line of the stream that is not blank.
\<close>

definition first_nonblank :: "string list \<Rightarrow> string option" where
  "first_nonblank lines = find (\<lambda>line. line \<noteq> []) lines"

text \<open>
  What the loop looks at: a line is significant when it is the magic line or a data line,
  that is, neither blank nor a comment starting with \<^verbatim>\<open>#\<close>.
\<close>

definition significant :: "string \<Rightarrow> bool" where
  "significant line = (line = rainbowMagic \<or> (line \<noteq> [] \<and> line ! 0 \<noteq> CHR ''#''))"

subsection \<open>pkg/shortscan: the vulnerability probe\<close>

text \<open>
  What a caller of \<^verbatim>\<open>fetch\<close> sees: an error with a nil response (\<^verbatim>\<open>hc.Do\<close> returns
  one whenever it returns no response), or a response, of which the probe reads the
  status code only. The server and the random source are the
  surroundings of a run: the \<open>n\<close>-th call of \<^verbatim>\<open>fetch\<close> is answered from its number, its
  method and its URL, the \<open>n\<close>-th call of \<^verbatim>\<open>rand.Intn\<close> from its number.
\<close>

datatype fetched = Failed | Got nat

record env =
  respond :: "nat \<Rightarrow> string \<Rightarrow> string \<Rightarrow> fetched"
  rand_source :: "nat \<Rightarrow> nat"
  url_ok :: "string \<Rightarrow> bool"

record world =
  fetches :: nat
  draws :: nat

definition fetch_call :: "env \<Rightarrow> world \<Rightarrow> string \<Rightarrow> string \<Rightarrow> fetched \<times> world" where
  "fetch_call e w method url = (respond e (fetches w) method url, w\<lparr>fetches := fetches w + 1\<rparr>)"

definition rand_Intn :: "env \<Rightarrow> world \<Rightarrow> nat \<Rightarrow> nat \<times> world" where
  "rand_Intn e w n = (rand_source e (draws w) mod n, w\<lparr>draws := draws w + 1\<rparr>)"

text \<open>
  \<^verbatim>\<open>%d\<close> of a number that is not negative.
\<close>

fun Sprintf_d :: "nat \<Rightarrow> string" where
  "Sprintf_d n =
     (if n < 10 then [''0123456789'' ! n]
      else Sprintf_d (n div 10) @ [''0123456789'' ! (n mod 10)])"

declare Sprintf_d.simps [simp del]

text \<open>
  The markers; the fields carry a prefix because the probe has local variables of the
  same names.
\<close>

record markers =
  mk_statusPos :: nat
  mk_statusNeg :: nat

definition httpMethods :: "string list" where
  "httpMethods =
     [''OPTIONS'', ''HEAD'', ''TRACE'', ''DEBUG'', ''GET'', ''POST'', ''PUT'', ''PATCH'', ''DELETE'', ''ACL'',
      ''BASELINE-CONTROL'', ''BIND'', ''CHECKIN'', ''CHECKOUT'', ''CONNECT'', ''COPY'', ''LABEL'', ''LINK'',
      ''LOCK'', ''MERGE'', ''MKACTIVITY'', ''MKCALENDAR'', ''MKCOL'', ''MKREDIRECTREF'', ''MKWORKSPACE'',
      ''MOVE'', ''ORDERPATCH'', ''PRI'', ''PROPFIND'', ''PROPPATCH'', ''REBIND'', ''REPORT'', ''SEARCH'',
      ''UNBIND'', ''UNCHECKOUT'', ''UNLINK'', ''UNLOCK'', ''UPDATE'', ''UPDATEREDIRECTREF'', ''VERSION-CONTROL'']"

definition pathSuffixes :: "string list" where
  "pathSuffixes =
     [''/'', '''', ''/.aspx'', ''?aspxerrorpath=/'', ''/.aspx?aspxerrorpath=/'', ''/.asmx'', ''/.vb'']"

text \<open>
  The first stage of \<^verbatim>\<open>Scan\<close>. For one method, four requests for names that cannot
  exist settle the negative status (\<open>None\<close> stands for \<^verbatim>\<open>continue methodEscape\<close>), then
  the four tildes are tried. The answer to the \<^verbatim>\<open>*~0*\<close> request is read without a look
  at its error: when that request fails its response is nil and reading the status code
  panics.
\<close>

definition negative_url :: "string \<Rightarrow> nat \<Rightarrow> string \<Rightarrow> string" where
  "negative_url url d sfx = url @ ''*'' @ Sprintf_d d @ ''*'' @ sfx"

definition positive_url :: "string \<Rightarrow> nat \<Rightarrow> string \<Rightarrow> string" where
  "positive_url url i sfx = url @ ''*~'' @ Sprintf_d i @ ''*'' @ sfx"

function negative_loop ::
  "env \<Rightarrow> string \<Rightarrow> string \<Rightarrow> string \<Rightarrow> nat \<Rightarrow> nat \<Rightarrow> world \<Rightarrow> nat option \<times> world" where
  "negative_loop e method url sfx i statusNeg w =
     (if i < 4 then
        (let (d, w1) = rand_Intn e w 5;
             (r, w2) = fetch_call e w1 method (negative_url url (d + 5) sfx)
         in case r of
              Failed \<Rightarrow> (None, w2)
            | Got status \<Rightarrow>
                if statusNeg \<noteq> 0 \<and> status \<noteq> statusNeg then (None, w2)
                else negative_loop e method url sfx (i + 1) status w2)
      else (Some statusNeg, w))"
  by pat_completeness auto
termination
  by (relation "measure (\<lambda>(e, method, url, sfx, i, statusNeg, w). 4 - i)") auto

declare negative_loop.simps [simp del]

function positive_loop ::
  "env \<Rightarrow> string \<Rightarrow> string \<Rightarrow> string \<Rightarrow> nat \<Rightarrow> nat \<Rightarrow> string list \<Rightarrow> markers \<Rightarrow> world \<Rightarrow>
   (string list \<times> markers \<times> world) exit" where
  "positive_loop e method url sfx statusNeg i tildes mk w =
     (if i \<le> 4 then
        (let (r, w1) = fetch_call e w method (positive_url url i sfx)
         in case r of
              Failed \<Rightarrow> positive_loop e method url sfx statusNeg (i + 1) tildes mk w1
            | Got statusPos \<Rightarrow>
                if statusPos \<noteq> statusNeg then
                  (let (r0, w2) = fetch_call e w1 method (url @ ''*~0*'' @ sfx)
                   in case r0 of
                        Failed \<Rightarrow> Panic ''nil pointer dereference''
                      | Got status0 \<Rightarrow>
                          if statusPos = status0 then
                            positive_loop e method url sfx statusNeg (i + 1) tildes mk w2
                          else
                            positive_loop e method url sfx statusNeg (i + 1)
                              (tildes @ [''~'' @ Sprintf_d i])
                              (mk\<lparr>mk_statusPos := statusPos, mk_statusNeg := statusNeg\<rparr>) w2)
                else positive_loop e method url sfx statusNeg (i + 1) tildes mk w1)
      else Return (tildes, mk, w))"
  by pat_completeness auto
termination
  by (relation "measure (\<lambda>(e, method, url, sfx, statusNeg, i, tildes, mk, w). 5 - i)") auto

declare positive_loop.simps [simp del]

text \<open>
  The loop over the methods for one suffix (the flag tells whether \<^verbatim>\<open>break outerEscape\<close>
  was taken), the loop over the suffixes, and the stage as a whole.
\<close>

fun method_loop ::
  "env \<Rightarrow> string \<Rightarrow> string \<Rightarrow> string list \<Rightarrow> attackConfig \<Rightarrow> markers \<Rightarrow> world \<Rightarrow>
   (bool \<times> attackConfig \<times> markers \<times> world) exit" where
  "method_loop e url sfx [] ac mk w = Return (False, ac, mk, w)"
| "method_loop e url sfx (method # methods) ac mk w =
     (case negative_loop e method url sfx 0 0 w of
        (None, w1) \<Rightarrow> method_loop e url sfx methods ac mk w1
      | (Some statusNeg, w1) \<Rightarrow>
          (case positive_loop e method url sfx statusNeg 1 (ac_tildes ac) mk w1 of
             Fatal m \<Rightarrow> Fatal m
           | Panic m \<Rightarrow> Panic m
           | Return (tildes, mk', w2) \<Rightarrow>
               if length tildes > 0 then
                 Return (True, ac\<lparr>ac_tildes := tildes, ac_method := method, ac_suffix := sfx\<rparr>, mk', w2)
               else method_loop e url sfx methods (ac\<lparr>ac_tildes := tildes\<rparr>) mk' w2))"

fun suffix_loop ::
  "env \<Rightarrow> string \<Rightarrow> string list \<Rightarrow> string list \<Rightarrow> attackConfig \<Rightarrow> markers \<Rightarrow> world \<Rightarrow>
   (attackConfig \<times> markers \<times> world) exit" where
  "suffix_loop e url [] methods ac mk w = Return (ac, mk, w)"
| "suffix_loop e url (sfx # sfxs) methods ac mk w =
     (case method_loop e url sfx methods ac mk w of
        Fatal m \<Rightarrow> Fatal m
      | Panic m \<Rightarrow> Panic m
      | Return (found, ac', mk', w') \<Rightarrow>
          if found then Return (ac', mk', w') else suffix_loop e url sfxs methods ac' mk' w')"

definition first_stage ::
  "env \<Rightarrow> nat \<Rightarrow> string \<Rightarrow> markers \<Rightarrow> world \<Rightarrow> (attackConfig \<times> markers \<times> world) exit" where
  "first_stage e Patience url mk w =
     (let ac = \<lparr>ac_method = [], ac_suffix = [], ac_tildes = [],
                ac_fileChars = Map.empty, ac_extChars = Map.empty\<rparr>;
          (pc, mc) = (if Patience = 1 then (length pathSuffixes, length httpMethods) else (4, 9))
      in suffix_loop e url (take pc pathSuffixes) (take mc httpMethods) ac mk w)"




definition blank_ac :: attackConfig where
  "blank_ac = \<lparr>ac_method = [], ac_suffix = [], ac_tildes = [],
                ac_fileChars = Map.empty, ac_extChars = Map.empty\<rparr>"

definition start_mk :: markers where
  "start_mk = \<lparr>mk_statusPos = 0, mk_statusNeg = 0\<rparr>"

definition start_world :: world where
  "start_world = \<lparr>fetches = 0, draws = 0\<rparr>"

subsection \<open>pkg/shortscan: the loop of Scan\<close>

text \<open>
  The command-line arguments \<^verbatim>\<open>Scan\<close> reads, a global of the package. \<^verbatim>\<open>Run\<close> lowers
  the autocomplete mode and refuses an unknown one before anything else happens.
\<close>

record arguments =
  Autocomplete :: string
  Patience :: nat
  IsVuln :: bool

text \<open>
  A run of \<^verbatim>\<open>Scan\<close> leaves a trace: \<open>AutoProbe url\<close> for the request with the method
  \<^verbatim>\<open>_\<close> that selects the mode, and \<open>Scanned url mode\<close> for every URL that passed its
  preflight, with the mode the later stages of that URL read.
\<close>

datatype event = AutoProbe string | Scanned string string

datatype scan_end = Finished | Exited string | Crashed string | Unfinished

definition Run_autocomplete :: "arguments \<Rightarrow> arguments exit" where
  "Run_autocomplete args =
     (let args1 = args\<lparr>Autocomplete := ToLower (Autocomplete args)\<rparr>
      in if Autocomplete args1 \<noteq> ''auto'' \<and> Autocomplete args1 \<noteq> ''method'' \<and>
            Autocomplete args1 \<noteq> ''status'' \<and> Autocomplete args1 \<noteq> ''distance'' \<and>
            Autocomplete args1 \<noteq> ''none''
         then Fatal ''autocomplete must be one of: auto, status, method, none''
         else Return args1)"

text \<open>
  "If autocomplete is in autoselect mode": the only place after \<^verbatim>\<open>Run\<close> that writes
  \<^verbatim>\<open>args.Autocomplete\<close>.
\<close>

definition resolve_autocomplete ::
  "env \<Rightarrow> arguments \<Rightarrow> string \<Rightarrow> world \<Rightarrow> event list \<Rightarrow> arguments \<times> world \<times> event list" where
  "resolve_autocomplete e args url w tr =
     (if Autocomplete args = ''auto'' then
        (let (r, w1) = fetch_call e w ''_'' url;
             tr1 = tr @ [AutoProbe url]
         in case r of
              Got status \<Rightarrow>
                if status = 405 then (args\<lparr>Autocomplete := ''method''\<rparr>, w1, tr1)
                else (args\<lparr>Autocomplete := ''status''\<rparr>, w1, tr1)
            | Failed \<Rightarrow> (args\<lparr>Autocomplete := ''status''\<rparr>, w1, tr1))
      else (args, w, tr))"

text \<open>
  The second and third stage (the discovery of the character sets and the enumeration)
  read the arguments and write none; they enter \<^verbatim>\<open>Scan\<close> as a parameter that ends the
  process or returns the directories found, in the order the map yields them.
\<close>

type_synonym later_stages =
  "arguments \<Rightarrow> string \<Rightarrow> attackConfig \<Rightarrow> markers \<Rightarrow> world \<Rightarrow> (string list \<times> world) exit"

datatype step =
  Stop scan_end arguments "event list"
| Next "string list" arguments markers world "event list"

definition prepend_directories :: "string \<Rightarrow> string list \<Rightarrow> string list \<Rightarrow> string list" where
  "prepend_directories url dirs urls = foldl (\<lambda>us dir. (url @ dir @ ''/'') # us) urls dirs"

text \<open>
  One round of the loop of \<^verbatim>\<open>Scan\<close>, and the loop. Discovered directories are put in
  front of the queue, so the loop need not end; it runs on fuel, and a run that uses it up
  returns what it has done so far.
\<close>

definition Scan_step ::
  "env \<Rightarrow> later_stages \<Rightarrow> string \<Rightarrow> string list \<Rightarrow> arguments \<Rightarrow> markers \<Rightarrow> world \<Rightarrow>
   event list \<Rightarrow> step" where
  "Scan_step e later u urls args mk w tr =
     (let url = Scan_url u
      in if \<not> url_ok e url then Stop (Exited ''Unable to parse URL'') args tr
         else
           (case fetch_call e w ''GET'' (url @ ''.aspx'') of
              (Failed, w1) \<Rightarrow> Stop (Exited ''Unable to access server'') args tr
            | (Got status, w1) \<Rightarrow>
                (let (args1, w2, tr1) = resolve_autocomplete e args url w1 tr;
                     tr2 = tr1 @ [Scanned url (Autocomplete args1)]
                 in case first_stage e (Patience args1) url mk w2 of
                      Fatal m \<Rightarrow> Stop (Exited m) args1 tr2
                    | Panic m \<Rightarrow> Stop (Crashed m) args1 tr2
                    | Return (ac, mk', w3) \<Rightarrow>
                        if length (ac_tildes ac) = 0 then Next urls args1 mk' w3 tr2
                        else if IsVuln args1 then Next urls args1 mk' w3 tr2
                        else
                          (case later args1 url ac mk' w3 of
                             Fatal m \<Rightarrow> Stop (Exited m) args1 tr2
                           | Panic m \<Rightarrow> Stop (Crashed m) args1 tr2
                           | Return (dirs, w4) \<Rightarrow>
                               Next (prepend_directories url dirs urls) args1 mk' w4 tr2))))"

fun Scan_loop ::
  "nat \<Rightarrow> env \<Rightarrow> later_stages \<Rightarrow> string list \<Rightarrow> arguments \<Rightarrow> markers \<Rightarrow> world \<Rightarrow>
   event list \<Rightarrow> scan_end \<times> arguments \<times> event list" where
  "Scan_loop 0 e later urls args mk w tr = (Unfinished, args, tr)"
| "Scan_loop (Suc fuel) e later [] args mk w tr = (Finished, args, tr)"
| "Scan_loop (Suc fuel) e later (u # urls) args mk w tr =
     (case Scan_step e later u urls args mk w tr of
        Stop en args' tr' \<Rightarrow> (en, args', tr')
      | Next urls' args' mk' w' tr' \<Rightarrow> Scan_loop fuel e later urls' args' mk' w' tr')"

fun auto_probes :: "event list \<Rightarrow> string list" where
  "auto_probes [] = []"
| "auto_probes (AutoProbe url # tr) = url # auto_probes tr"
| "auto_probes (Scanned url m # tr) = auto_probes tr"

fun scan_modes :: "event list \<Rightarrow> string list" where
  "scan_modes [] = []"
| "scan_modes (AutoProbe url # tr) = scan_modes tr"
| "scan_modes (Scanned url m # tr) = m # scan_modes tr"

text \<open>
  The mode the first URL selects: the request with \<^verbatim>\<open>_\<close> is the second one of the run.
\<close>

definition resolved :: "env \<Rightarrow> world \<Rightarrow> string \<Rightarrow> string" where
  "resolved e w url =
     (if respond e (fetches w + 1) ''_'' url = Got 405 then ''method'' else ''status'')"

definition step_args :: "step \<Rightarrow> arguments" where
  "step_args s = (case s of Stop en a t \<Rightarrow> a | Next us a m w t \<Rightarrow> a)"

definition step_trace :: "step \<Rightarrow> event list" where
  "step_trace s = (case s of Stop en a t \<Rightarrow> t | Next us a m w t \<Rightarrow> t)"

text \<open>
  A sample server that answers the preflight requests, answers \<^verbatim>\<open>_\<close> with 405 and fails
  every probe.
\<close>

definition server4 :: env where
  "server4 =
     \<lparr>respond = (\<lambda>n method url.
         if method = ''GET'' \<and> (url = ''https://host/.aspx'' \<or> url = ''http://other/.aspx'') then Got 200
         else if method = ''_'' then Got 405
         else Failed),
      rand_source = (\<lambda>n. n), url_ok = (\<lambda>u. True)\<rparr>"

definition no_later_stages :: later_stages where
  "no_later_stages args url ac mk w = Return ([], w)"

definition auto_args :: arguments where
  "auto_args = \<lparr>Autocomplete = ''auto'', Patience = 0, IsVuln = False\<rparr>"

section \<open>Proofs\<close>

subsection \<open>Levenshtein distance\<close>

lemma maths_Min_eq: "maths_Min a b = min a b"
  by (simp add: maths_Min_def min_def)

lemma lev_Nil2 [simp]: "lev xs [] = length xs"
  by (cases xs) simp_all

lemma lev_sym: "lev xs ys = lev ys xs"
  by (induction xs ys rule: lev.induct) (simp_all add: min.commute eq_commute)

lemma row_cell_snoc:
  "row_cell (xs @ [x]) (ys @ [y]) =
     min (min (row_cell xs (ys @ [y]) + 1) (row_cell (xs @ [x]) ys + 1))
         (row_cell xs ys + (if x = y then 0 else 1))"
  by (simp add: row_cell_def)

lemma inner_loop_length [simp]: "length (inner_loop ca bs j fj1 f) = length f"
  by (induction bs arbitrary: j fj1 f) (simp_all add: Let_def)

text \<open>
  The invariant of the inner loop: left of \<open>j\<close> the row already holds the cells for
  \<open>a @ [ca]\<close>, from \<open>j\<close> on it still holds the cells for \<open>a\<close>, and \<open>fj1\<close> is the old
  cell at \<open>j - 1\<close>.
\<close>

lemma inner_loop_row:
  assumes "length f = length pre + length bs + 1"
    and "j = length pre + 1"
    and "\<forall>k<j. f ! k = row_cell (a @ [ca]) (take k (pre @ bs))"
    and "\<forall>k. j \<le> k \<and> k < length f \<longrightarrow> f ! k = row_cell a (take k (pre @ bs))"
    and "fj1 = row_cell a pre"
  shows "\<forall>k<length f. inner_loop ca bs j fj1 f ! k = row_cell (a @ [ca]) (take k (pre @ bs))"
  using assms
proof (induction bs arbitrary: pre j fj1 f)
  case Nil
  then show ?case by simp
next
  case (Cons cb bs)
  define mn where
    "mn = min (min (f ! j + 1) (f ! (j - 1) + 1)) (fj1 + (if cb = ca then 0 else 1))"
  have step: "inner_loop ca (cb # bs) j fj1 f = inner_loop ca bs (j + 1) (f ! j) (f[j := mn])"
    by (simp add: mn_def Let_def maths_Min_eq)
  have jlt: "j < length f"
    using Cons.prems by simp
  have above: "f ! j = row_cell a (pre @ [cb])"
    using Cons.prems jlt by simp
  have left: "f ! (j - 1) = row_cell (a @ [ca]) pre"
    using Cons.prems by simp
  have mn_eq: "mn = row_cell (a @ [ca]) (pre @ [cb])"
    unfolding mn_def above left Cons.prems(5) row_cell_snoc by (simp add: eq_commute)
  have "\<forall>k<length (f[j := mn]). inner_loop ca bs (j + 1) (f ! j) (f[j := mn]) ! k
          = row_cell (a @ [ca]) (take k ((pre @ [cb]) @ bs))"
  proof (rule Cons.IH)
    show "length (f[j := mn]) = length (pre @ [cb]) + length bs + 1"
      using Cons.prems by simp
    show "j + 1 = length (pre @ [cb]) + 1"
      using Cons.prems by simp
    show "\<forall>k<j + 1. f[j := mn] ! k = row_cell (a @ [ca]) (take k ((pre @ [cb]) @ bs))"
    proof (intro allI impI)
      fix k assume "k < j + 1"
      then consider "k < j" | "k = j" by linarith
      then show "f[j := mn] ! k = row_cell (a @ [ca]) (take k ((pre @ [cb]) @ bs))"
      proof cases
        case 1
        then show ?thesis using Cons.prems(3) by simp
      next
        case 2
        then show ?thesis using jlt mn_eq Cons.prems(2) by simp
      qed
    qed
    show "\<forall>k. j + 1 \<le> k \<and> k < length (f[j := mn]) \<longrightarrow>
            f[j := mn] ! k = row_cell a (take k ((pre @ [cb]) @ bs))"
      using Cons.prems(4) by simp
    show "f ! j = row_cell a (pre @ [cb])"
      by (rule above)
  qed
  then show ?case unfolding step by simp
qed

lemma outer_loop_row:
  assumes "length f = length b + 1"
    and "\<forall>k<length f. f ! k = row_cell a (take k b)"
  shows "length (outer_loop as b f) = length f \<and>
         (\<forall>k<length f. outer_loop as b f ! k = row_cell (a @ as) (take k b))"
  using assms
proof (induction as arbitrary: a f)
  case Nil
  then show ?case by simp
next
  case (Cons ca as)
  let ?g = "inner_loop ca b 1 (f ! 0) (f[0 := f ! 0 + 1])"
  have f0: "f ! 0 = row_cell a []"
    using Cons.prems by simp
  have row: "\<forall>k<length (f[0 := f ! 0 + 1]). ?g ! k = row_cell (a @ [ca]) (take k ([] @ b))"
  proof (rule inner_loop_row)
    show "length (f[0 := f ! 0 + 1]) = length ([]::'a list) + length b + 1"
      using Cons.prems by simp
    show "(1::nat) = length ([]::'a list) + 1"
      by simp
    show "\<forall>k<1. f[0 := f ! 0 + 1] ! k = row_cell (a @ [ca]) (take k ([] @ b))"
      using Cons.prems f0 by (simp add: row_cell_def)
    show "\<forall>k. 1 \<le> k \<and> k < length (f[0 := f ! 0 + 1]) \<longrightarrow>
            f[0 := f ! 0 + 1] ! k = row_cell a (take k ([] @ b))"
      using Cons.prems by simp
    show "f ! 0 = row_cell a []"
      by (rule f0)
  qed
  have "length (outer_loop as b ?g) = length ?g \<and>
         (\<forall>k<length ?g. outer_loop as b ?g ! k = row_cell ((a @ [ca]) @ as) (take k b))"
    by (rule Cons.IH) (use Cons.prems row in simp_all)
  then show ?case by simp
qed

lemma Distance_lev: "Distance a b = lev (rev a) (rev b)"
proof -
  let ?f = "[0 ..< length b + 1]"
  have "length (outer_loop a b ?f) = length ?f \<and>
         (\<forall>k<length ?f. outer_loop a b ?f ! k = row_cell ([] @ a) (take k b))"
    by (rule outer_loop_row) (simp_all add: row_cell_def nth_append)
  then show ?thesis
    by (simp add: Distance_def Let_def row_cell_def)
qed

text \<open>
  C9: the Levenshtein distance is symmetric: for all rune sequences \<open>a\<close> and \<open>b\<close>,
  \<open>Distance a b\<close> equals \<open>Distance b a\<close>.
\<close>

theorem Distance_symmetric: "Distance a b = Distance b a"
  by (simp add: Distance_lev lev_sym)

subsection \<open>Gen8dot3\<close>

text \<open>
  C5 (as amended): \<^verbatim>\<open>Gen8dot3("PROGRA.M FILES", "htm")\<close> returns
  \<^verbatim>\<open>(true, "PROGRA", "HTM")\<close>: the name was shortened, the stem has its space and dot
  removed and is cut to six bytes, the extension is upper-cased.
\<close>

theorem Gen8dot3_progra: "Gen8dot3 ''PROGRA.M FILES'' ''htm'' = (True, ''PROGRA'', ''HTM'')"
  by code_simp

theorem Gen8dot3_progra_witness:
  "fst (Gen8dot3 ''PROGRA.M FILES'' ''htm'') \<and> length (fst (snd (Gen8dot3 ''PROGRA.M FILES'' ''htm''))) = 6"
  using Gen8dot3_progra by simp

text \<open>
  The triple with the seven-byte stem \<^verbatim>\<open>PROGRAM\<close>, which the specification names, is
  not what the function returns.
\<close>

theorem Gen8dot3_progra_counterexample:
  "Gen8dot3 ''PROGRA.M FILES'' ''htm'' \<noteq> (True, ''PROGRAM'', ''HTM'')"
  by code_simp

lemma Gen8dot3_stem_length: "length (fst (snd (Gen8dot3 file_name ext))) \<le> 6"
  by (simp add: Gen8dot3_def Let_def maths_Min_def)

subsection \<open>The primary checksum\<close>

lemma multiplier_inverse: "(314159269 :: 32 word) * 1440659245 = 1"
  by simp

text \<open>
  The multiplier is odd, hence a unit modulo \<open>2\<^sup>3\<^sup>2\<close>: the only operand whose product is
  the least \<^verbatim>\<open>int32\<close> is \<open>2\<^sup>3\<^sup>1\<close> itself, and no 16-bit accumulator reaches it.
\<close>

lemma product_not_minimum: "(ucast (ck :: 16 word) :: 32 word) * 314159269 \<noteq> 0x80000000"
proof
  assume h: "(ucast ck :: 32 word) * 314159269 = 0x80000000"
  have "(ucast ck * 314159269) * 1440659245 = (ucast ck :: 32 word) * (314159269 * 1440659245)"
    by (simp only: mult.assoc)
  also have "\<dots> = ucast ck"
    by (simp only: multiplier_inverse mult_1_right)
  finally have "(ucast ck :: 32 word) = (ucast ck * 314159269) * 1440659245"
    by simp
  also have "\<dots> = 0x80000000 * 1440659245"
    by (simp only: h)
  also have "\<dots> = (0x80000000 :: 32 word)"
    by simp
  finally have "(ucast ck :: 32 word) = 0x80000000" .
  then have "unat (ucast ck :: 32 word) = 2147483648"
    by simp
  moreover have "unat (ucast ck :: 32 word) \<le> unat ck"
    by (simp add: unsigned_ucast_eq take_bit_nat_less_eq_self)
  moreover have "unat ck < 65536"
    using unsigned_less [of ck, where 'a = nat] by simp
  ultimately show False
    by simp
qed

lemma sint_abs_less:
  assumes "(w :: 32 word) \<noteq> 0x80000000"
  shows "\<bar>sint w\<bar> < 2 ^ 31"
proof -
  have lo: "- (2 ^ 31) \<le> sint w"
    using sint_ge [of w] by simp
  have hi: "sint w < 2 ^ 31"
    using sint_lt [of w] by simp
  have "sint w \<noteq> - (2 ^ 31)"
  proof
    assume "sint w = - (2 ^ 31)"
    then have "word_of_int (sint w) = (word_of_int (- (2 ^ 31)) :: 32 word)"
      by simp
    then have "w = 0x80000000"
      by simp
    with assms show False
      by simp
  qed
  with lo hi show ?thesis
    by linarith
qed

lemma float64_of_int_exact: "\<bar>x\<bar> < 2 ^ 53 \<Longrightarrow> float64_of_int x = x"
  by (simp add: float64_of_int_def Let_def)

lemma Checksum_t_abs:
  "sint ((ucast (ck :: 16 word) :: 32 word) * 314159269) \<noteq> - (2 ^ 31) \<and>
   (\<exists>t. Checksum_t ck = Some t \<and> sint t = \<bar>sint ((ucast ck :: 32 word) * 314159269)\<bar>)"
proof -
  let ?p = "(ucast ck :: 32 word) * 314159269"
  have b: "\<bar>sint ?p\<bar> < 2 ^ 31"
    by (rule sint_abs_less) (rule product_not_minimum)
  then have f: "float64_of_int (sint ?p) = sint ?p"
    by (intro float64_of_int_exact) simp
  have "Checksum_t ck = Some (word_of_int \<bar>sint ?p\<bar>)"
    using b by (simp add: Checksum_t_def f math_Abs_def int32_of_float64_def)
  moreover have "sint (word_of_int \<bar>sint ?p\<bar> :: 32 word) = \<bar>sint ?p\<bar>"
    using b by (simp add: int_word_sint)
  ultimately show ?thesis
    using b by auto
qed

text \<open>
  C6: for every input \<open>f\<close>, the intermediate value \<open>t\<close> of the primary checksum is the
  absolute value of the wrapping signed 32-bit product \<^verbatim>\<open>int32(ck) * 314159269\<close>: the
  product is never the least \<^verbatim>\<open>int32\<close>, so its absolute value is an \<^verbatim>\<open>int32\<close>, and
  the route through \<^verbatim>\<open>float64\<close> yields exactly that integer.
\<close>

theorem Checksum_t_is_abs_of_product:
  "sint ((ucast (accumulate f) :: 32 word) * 314159269) \<noteq> - (2 ^ 31) \<and>
   (\<exists>t. Checksum_t (accumulate f) = Some t \<and>
        sint t = \<bar>sint ((ucast (accumulate f) :: 32 word) * 314159269)\<bar>)"
  by (rule Checksum_t_abs)

theorem Checksum_t_is_abs_of_product_witness:
  "\<exists>t. Checksum_t (accumulate (runes_of ''index.html'')) = Some t \<and>
       sint t = \<bar>sint ((ucast (accumulate (runes_of ''index.html'')) :: 32 word) * 314159269)\<bar>"
  using Checksum_t_is_abs_of_product [of "runes_of ''index.html''"] by simp

lemma Checksum_total: "\<exists>s. Checksum f = Some s"
  using Checksum_t_abs [of "accumulate f"] by (auto simp: Checksum_def Let_def)

subsection \<open>fetch\<close>

text \<open>
  Whenever the request object was created, \<^verbatim>\<open>err\<close> is nil and the loop leaves after
  its first round, whatever \<^verbatim>\<open>hc.Do\<close> returned: one attempt, no sleep.
\<close>

lemma request_loop_single_attempt:
  "request_loop None do_request 0 None None [] = (0, fst (do_request 0), snd (do_request 0), [])"
  by (subst request_loop.simps) (simp add: case_prod_beta)

lemma fetch_never_retries:
  "fetch tr st = Return (r, st', slept) \<Longrightarrow> slept = [] \<and> retries st' = retries st"
  by (auto simp: fetch_def request_loop_single_attempt Let_def split: option.splits sum.splits)

text \<open>
  What \<^verbatim>\<open>fetch\<close> returns is the pair of \<^verbatim>\<open>hc.Do\<close> when there is no response, and the
  response with a nil error otherwise.
\<close>

lemma fetch_returns:
  "fetch tr st = Return ((res, err), st', slept) \<Longrightarrow>
   (res = None \<and> err = snd (Do tr 0)) \<or> (res = fst (Do tr 0) \<and> res \<noteq> None \<and> err = None)"
  by (auto simp: fetch_def request_loop_single_attempt Let_def split: option.splits sum.splits)

text \<open>
  C1 (the code departs from it): \<^verbatim>\<open>fetch\<close> is to retry a request whose transport fails,
  up to four attempts with a growing pause, and to return the last error only after the
  last attempt. On the transport \<open>flaky\<close>, whose first attempt fails and whose second
  would succeed, \<^verbatim>\<open>fetch\<close> makes one attempt, sleeps not at all, counts no retry and
  hands the first error to its caller.
\<close>

theorem fetch_flaky_gives_up:
  "fetch flaky \<lparr>bytesTx = 0, bytesRx = 0, requests = 0, retries = 0\<rparr>
     = Return ((None, Some ''connection reset''),
               \<lparr>bytesTx = 0, bytesRx = 0, requests = 0, retries = 0\<rparr>, [])"
  by (simp add: fetch_def flaky_def request_loop_single_attempt)

subsection \<open>The percent workaround\<close>

lemma percent_loop_eq:
  "percent_loop 0 x y char = (if x < y then char @ runes_of ''??'' else char)"
  by (simp add: percent_loop.simps [of 0] percent_loop.simps [of "Suc 0"]
        percent_loop.simps [of "Suc (Suc 0)"] runes_of_def)

lemma percent_workaround_eq:
  "percent_workaround extMode br char =
     (if char = runes_of ''%'' \<and> (if extMode then len (br_ext br) < 1 else len (br_file br) < 4)
      then runes_of ''%??'' else char)"
  by (simp add: percent_workaround_def percent_loop_eq runes_of_def)




text \<open>
  In extension mode the extension already holds its dot, so the guard \<^verbatim>\<open>x < 1\<close> is false
  and nothing is appended.
\<close>

lemma percent_workaround_ext: "br_ext br \<noteq> [] \<Longrightarrow> percent_workaround True br char = char"
proof -
  assume "br_ext br \<noteq> []"
  then obtain r rs where "br_ext br = r # rs"
    by (cases "br_ext br") auto
  then have "\<not> len (br_ext br) < 1"
    by (simp add: len_def utf8_len_def Let_def)
  then show ?thesis
    by (simp add: percent_workaround_eq)
qed

subsection \<open>The search tree of the enumerator\<close>

lemma utf8_len_pos: "1 \<le> utf8_len r"
  by (simp add: utf8_len_def Let_def)

lemma length_le_len: "length s \<le> len s"
proof (induction s)
  case Nil
  show ?case by (simp add: len_def)
next
  case (Cons r s)
  then show ?case using utf8_len_pos [of r] by (simp add: len_def)
qed

text \<open>
  For an alphabet of ASCII runes, the default, bytes and characters are the same count.
\<close>

lemma len_ascii: "\<forall>r\<in>set s. unat r \<le> 0x7F \<Longrightarrow> len s = length s"
  by (induction s) (simp_all add: len_def utf8_len_def)

lemma len_Nil [simp]: "len [] = 0"
  by (simp add: len_def)

lemma len_append [simp]: "len (a @ b) = len a + len b"
  by (simp add: len_def)

lemma len_eq_0 [simp]: "len s = 0 \<longleftrightarrow> s = []"
  using length_le_len [of s] by (cases s) auto

lemma len_pos [simp]: "0 < len s \<longleftrightarrow> s \<noteq> []"
  using len_eq_0 [of s] by (simp only: neq0_conv [symmetric])

lemma char_step:
  assumes "call_inv br" and "extMode = (len (br_ext br) > 0)"
  shows "probe_inv extMode (add_char extMode br (percent_workaround extMode br [c]))"
proof (cases "br_ext br = []")
  case True
  then have em: "\<not> extMode"
    using assms by simp
  have l: "len (br_file br) < 6"
    using assms True by (simp add: call_inv_def)
  have n: "length (br_file br) \<le> len (br_file br)"
    by (rule length_le_len)
  show ?thesis
  proof (cases "[c] = runes_of ''%'' \<and> len (br_file br) < 4")
    case True
    then have "percent_workaround extMode br [c] = runes_of ''%??''"
      using em by (simp add: percent_workaround_eq)
    then show ?thesis
      using em \<open>br_ext br = []\<close> True n
      by (simp add: probe_inv_def name_ok_def add_char_def runes_of_def)
  next
    case False
    then have "percent_workaround extMode br [c] = [c]"
      using em by (auto simp: percent_workaround_eq)
    then show ?thesis
      using em \<open>br_ext br = []\<close> l n
      by (simp add: probe_inv_def name_ok_def add_char_def)
  qed
next
  case False
  then have em: "extMode"
    using assms by simp
  have i: "length (br_file br) \<le> 6" "hd (br_ext br) = of_char CHR ''.''" "len (br_ext br) < 4"
    using assms False by (simp_all add: call_inv_def)
  have n: "length (br_ext br) \<le> len (br_ext br)"
    by (rule length_le_len)
  have "percent_workaround extMode br [c] = [c]"
    using em False by (simp add: percent_workaround_ext)
  then show ?thesis
    using em False i n
    by (cases "br_ext br") (simp_all add: probe_inv_def name_ok_def add_char_def)
qed

lemma extension_step:
  assumes "probe_inv extMode br" and "len (br_ext br) = 0"
  shows "call_inv (br\<lparr>br_ext := runes_of ''.''\<rparr>)"
  using assms
  by (simp add: probe_inv_def name_ok_def call_inv_def runes_of_def len_def utf8_len_def)

lemma recurse_step:
  assumes "probe_inv extMode br" and "deeper extMode br"
  shows "call_inv br"
  using assms by (auto simp: probe_inv_def name_ok_def call_inv_def deeper_def)

lemma reach_inv:
  "(called ac u br \<longrightarrow> call_inv br) \<and> (probed ac u extMode br' \<longrightarrow> probe_inv extMode br')"
proof -
  have "called ac u br \<Longrightarrow> call_inv br" and "probed ac u extMode br' \<Longrightarrow> probe_inv extMode br'"
  proof (induction rule: called_probed.inducts)
    case (root tilde)
    show ?case by (simp add: call_inv_def)
  next
    case (char br extMode chars c)
    then show ?case using char_step by blast
  next
    case (extension extMode br)
    then show ?case using extension_step by blast
  next
    case (recurse extMode br)
    then show ?case using recurse_step by blast
  qed
  then show ?thesis by simp
qed

lemma call_inv_name_ok: "call_inv br \<Longrightarrow> name_ok br"
  using length_le_len [of "br_file br"] length_le_len [of "br_ext br"]
  by (cases "br_ext br") (auto simp: call_inv_def name_ok_def split: if_splits)

text \<open>
  C7: every request reachable in the search tree, whether \<^verbatim>\<open>enumerate\<close> is called with
  it or a worker holds it after appending its character, has a stem of 0 to 6
  characters and an extension that is empty or a dot followed by 0 to 3 characters.
  Characters are runes; the guards of the code count bytes, which bounds the runes.
\<close>

theorem reachable_name_ok:
  "(called ac u br \<longrightarrow> name_ok br) \<and> (probed ac u extMode br \<longrightarrow> name_ok br)"
  using reach_inv [of ac u br extMode br] call_inv_name_ok by (auto simp: probe_inv_def)

theorem reachable_name_ok_witness:
  "probed sample_ac ''http://host/'' False (sample_br (runes_of ''%??'')) \<and>
   name_ok (sample_br (runes_of ''%??''))"
proof -
  let ?root = "\<lparr>br_url = ''http://host/'', br_file = [], br_tilde = ''~1'', br_ext = []\<rparr>"
  have c: "called sample_ac ''http://host/'' ?root"
    by (rule called_probed.root) (simp add: sample_ac_def)
  have "probed sample_ac ''http://host/'' False
          (add_char False ?root (percent_workaround False ?root [of_char CHR ''%'']))"
    by (rule called_probed.char [OF c, where chars = "runes_of ''%A''"])
       (simp_all add: sample_ac_def lookup_def runes_of_def)
  then have p: "probed sample_ac ''http://host/'' False (sample_br (runes_of ''%??''))"
    by (simp add: percent_workaround_eq add_char_def sample_br_def runes_of_def)
  with reachable_name_ok [of sample_ac "''http://host/''" "sample_br (runes_of ''%??'')" False]
  show ?thesis by simp
qed

subsection \<open>The URL Scan works on\<close>

lemma Contains_sublist: "Contains s substr = sublist substr s"
  by (induction s) (simp_all add: sublist_Cons_right)

lemma TrimSuffix_slash:
  "TrimSuffix u ''/'' = (if u \<noteq> [] \<and> last u = CHR ''/'' then butlast u else u)"
proof (cases u rule: rev_cases)
  case Nil
  then show ?thesis by (simp add: TrimSuffix_def)
next
  case (snoc ys y)
  then show ?thesis by (auto simp: TrimSuffix_def suffix_def)
qed

lemma url_slash:
  "TrimSuffix u ''/'' @ ''/'' = (if u \<noteq> [] \<and> last u = CHR ''/'' then u else u @ ''/'')"
  by (cases u rule: rev_cases) (simp_all add: TrimSuffix_slash)

text \<open>Appending the slash cannot complete a scheme separator the input did not have.\<close>

lemma no_new_scheme:
  assumes "\<not> Contains u ''://''"
  shows "\<not> Contains (TrimSuffix u ''/'' @ ''/'') ''://''"
proof (cases "u \<noteq> [] \<and> last u = CHR ''/''")
  case True
  then show ?thesis using assms by (simp add: url_slash)
next
  case False
  have "\<not> sublist ''://'' (u @ ''/'')"
  proof
    assume "sublist ''://'' (u @ ''/'')"
    then obtain ps ss where e: "u @ ''/'' = ps @ ''://'' @ ss"
      by (auto simp: sublist_def)
    show False
    proof (cases ss rule: rev_cases)
      case Nil
      with e have "u = ps @ '':/''" by simp
      with False show False by simp
    next
      case (snoc zs z)
      with e have "u = ps @ ''://'' @ zs" by simp
      then have "sublist ''://'' u" by (auto simp: sublist_def)
      with assms show False by (simp add: Contains_sublist)
    qed
  qed
  with False show ?thesis by (auto simp: url_slash Contains_sublist)
qed

lemma Scan_url_https: "\<not> Contains u ''://'' \<Longrightarrow> prefix ''https://'' (Scan_url u)"
  using no_new_scheme [of u] by (simp add: Scan_url_def Let_def)

lemma trailing_snoc_slash [simp]: "trailing_slashes (s @ ''/'') = Suc (trailing_slashes s)"
  by (simp add: trailing_slashes_def)

lemma trailing_zero: "trailing_slashes s = 0 \<longleftrightarrow> (s = [] \<or> last s \<noteq> CHR ''/'')"
  by (cases s rule: rev_cases) (simp_all add: trailing_slashes_def)

lemma trailing_prefix_ge: "trailing_slashes s \<le> trailing_slashes (p @ s)"
proof (cases "\<forall>x\<in>set (rev s). x = CHR ''/''")
  case True
  then have "takeWhile (\<lambda>c. c = CHR ''/'') (rev s @ rev p)
               = rev s @ takeWhile (\<lambda>c. c = CHR ''/'') (rev p)"
    by (intro takeWhile_append2) simp
  then show ?thesis
    using length_takeWhile_le [of "\<lambda>c. c = CHR ''/''" "rev s"]
    by (simp add: trailing_slashes_def)
next
  case False
  then obtain x where "x \<in> set (rev s)" "x \<noteq> CHR ''/''"
    by blast
  then have "takeWhile (\<lambda>c. c = CHR ''/'') (rev s @ rev p) = takeWhile (\<lambda>c. c = CHR ''/'') (rev s)"
    by (rule takeWhile_append1)
  then show ?thesis by (simp add: trailing_slashes_def)
qed

lemma trailing_prefix_eq:
  assumes "t \<noteq> []" and "last t \<noteq> CHR ''/''"
  shows "trailing_slashes (p @ t) = trailing_slashes t"
proof -
  have "last t \<in> set (rev t)"
    using assms by simp
  then have "takeWhile (\<lambda>c. c = CHR ''/'') (rev t @ rev p) = takeWhile (\<lambda>c. c = CHR ''/'') (rev t)"
    using assms(2) by (rule takeWhile_append1)
  then show ?thesis by (simp add: trailing_slashes_def)
qed

lemma trailing_url:
  "trailing_slashes (p @ t @ ''/'') = 1 \<longleftrightarrow>
     (t \<noteq> [] \<and> last t \<noteq> CHR ''/'') \<or> (t = [] \<and> trailing_slashes p = 0)"
proof (cases "t = []")
  case True
  then show ?thesis by simp
next
  case False
  show ?thesis
  proof (cases "last t = CHR ''/''")
    case True
    then have "trailing_slashes t \<noteq> 0"
      using False by (simp add: trailing_zero)
    then have "2 \<le> trailing_slashes (t @ ''/'')"
      by simp
    then have "2 \<le> trailing_slashes (p @ t @ ''/'')"
      using trailing_prefix_ge [of "t @ ''/''" p] by simp
    then show ?thesis using True False by simp
  next
    case l: False
    have "trailing_slashes (p @ t @ ''/'') = Suc (trailing_slashes (p @ t))"
      using trailing_snoc_slash [of "p @ t"] by simp
    also have "\<dots> = Suc (trailing_slashes t)"
      using False l by (simp add: trailing_prefix_eq)
    also have "\<dots> = 1"
      using l by (simp add: trailing_zero)
    finally show ?thesis using False l by simp
  qed
qed

lemma suffix_slashes:
  "suffix ''//'' (xs @ [a, b]) \<longleftrightarrow> a = CHR ''/'' \<and> b = CHR ''/''"
proof -
  have "xs @ [a, b] = (xs @ [a]) @ [b]"
    by simp
  then have "suffix ''//'' (xs @ [a, b]) = suffix ''//'' ((xs @ [a]) @ [b])"
    by simp
  also have "\<dots> \<longleftrightarrow> a = CHR ''/'' \<and> b = CHR ''/''"
    unfolding suffix_snoc by (auto simp: Cons_eq_append_conv)
  finally show ?thesis .
qed

lemma trimmed_shape:
  "(TrimSuffix u ''/'' \<noteq> [] \<and> last (TrimSuffix u ''/'') \<noteq> CHR ''/'')
     \<longleftrightarrow> (u \<noteq> [] \<and> u \<noteq> ''/'' \<and> \<not> suffix ''//'' u)"
proof (cases u rule: rev_cases)
  case Nil
  then show ?thesis by (simp add: TrimSuffix_slash)
next
  case (snoc ys y)
  then show ?thesis
    by (cases ys rule: rev_cases)
       (auto simp: TrimSuffix_slash suffix_slashes suffix_def butlast_append)
qed

text \<open>
  C8 (as amended): for every input, the URL \<^verbatim>\<open>Scan\<close> works on ends with a slash; it ends
  with exactly one slash if and only if the input is neither empty nor \<^verbatim>\<open>/\<close> and does
  not end with two slashes; and when the input has no scheme separator \<^verbatim>\<open>://\<close> it
  begins with \<^verbatim>\<open>https://\<close>.
\<close>

theorem Scan_url_shape:
  "Scan_url u \<noteq> [] \<and> last (Scan_url u) = CHR ''/'' \<and>
   (trailing_slashes (Scan_url u) = 1 \<longleftrightarrow> (u \<noteq> [] \<and> u \<noteq> ''/'' \<and> \<not> suffix ''//'' u)) \<and>
   (\<not> Contains u ''://'' \<longrightarrow> prefix ''https://'' (Scan_url u))"
proof -
  let ?t = "TrimSuffix u ''/''"
  have a: "Scan_url u \<noteq> [] \<and> last (Scan_url u) = CHR ''/''"
    by (simp add: Scan_url_def Let_def)
  have "Contains (?t @ ''/'') ''://'' \<Longrightarrow> ?t \<noteq> []"
    by (auto simp: Contains_sublist sublist_Cons_right prefix_def)
  then have b: "trailing_slashes (Scan_url u) = 1 \<longleftrightarrow> (?t \<noteq> [] \<and> last ?t \<noteq> CHR ''/'')"
    using trailing_url [of "''https://''" ?t] trailing_url [of "[]" ?t]
    by (auto simp: Scan_url_def Let_def trailing_slashes_def)
  show ?thesis
    using a b trimmed_shape [of u] Scan_url_https [of u] by simp
qed

theorem Scan_url_shape_witness:
  "\<not> Contains ''example.org/'' ''://'' \<and> Scan_url ''example.org/'' = ''https://example.org/'' \<and>
   trailing_slashes (Scan_url ''example.org/'') = 1"
  using Scan_url_shape [of "''example.org/''"]
  by (simp add: Scan_url_def TrimSuffix_def suffix_def)

text \<open>An input with two trailing slashes keeps both.\<close>

theorem Scan_url_counterexample:
  "Scan_url ''http://a//'' = ''http://a//'' \<and> trailing_slashes (Scan_url ''http://a//'') = 2"
  by (simp add: Scan_url_def TrimSuffix_def trailing_slashes_def suffix_def)

subsection \<open>The rainbow flag\<close>

lemma plain_stays_plain:
  "0 < n \<Longrightarrow> \<not> isRainbow wc \<Longrightarrow> \<exists>wc'. read_wordlist ls n wc = Return wc' \<and> \<not> isRainbow wc'"
  by (induction ls arbitrary: n wc) simp_all

lemma rainbow_stays_rainbow:
  "isRainbow wc \<Longrightarrow> read_wordlist ls n wc = Return wc' \<Longrightarrow> isRainbow wc'"
proof (induction ls arbitrary: n wc)
  case Nil
  then show ?case by simp
next
  case (Cons line rest)
  from Cons.prems(2) show ?case
    by (simp split: if_splits) (erule Cons.IH [rotated], simp add: Cons.prems(1))+
qed

lemma read_wordlist_no_panic: "read_wordlist ls n wc \<noteq> Panic m"
  by (induction ls arbitrary: n wc) simp_all

lemma flag_iff:
  "\<not> isRainbow wc \<Longrightarrow>
   (case read_wordlist ls 0 wc of
      Return wc' \<Rightarrow> isRainbow wc' = (find significant ls = Some rainbowMagic)
    | Fatal m \<Rightarrow> find significant ls = Some rainbowMagic
    | Panic m \<Rightarrow> False)"
proof (induction ls arbitrary: wc)
  case Nil
  then show ?case by simp
next
  case (Cons line rest)
  show ?case
  proof (cases "line = rainbowMagic")
    case True
    then have s: "find significant (line # rest) = Some rainbowMagic"
      by (simp add: significant_def)
    have r: "read_wordlist (line # rest) 0 wc = read_wordlist rest 0 (wc\<lparr>isRainbow := True\<rparr>)"
      using True by simp
    show ?thesis
      unfolding r s
      using rainbow_stays_rainbow [of "wc\<lparr>isRainbow := True\<rparr>" rest 0]
        read_wordlist_no_panic [of rest 0 "wc\<lparr>isRainbow := True\<rparr>"]
      by (auto split: exit.splits)
  next
    case False
    show ?thesis
    proof (cases "length line = 0 \<or> line ! 0 = CHR ''#''")
      case True
      then have "\<not> significant line"
        using False by (auto simp: significant_def)
      then have s: "find significant (line # rest) = find significant rest"
        by simp
      have r: "read_wordlist (line # rest) 0 wc = read_wordlist rest 0 wc"
        using True False by simp
      show ?thesis
        unfolding r s using Cons.IH [OF Cons.prems] .
    next
      case data: False
      then have "significant line"
        by (auto simp: significant_def)
      then have s: "find significant (line # rest) = Some line"
        by simp
      have r: "read_wordlist (line # rest) 0 wc
                 = read_wordlist rest 1 (wc\<lparr>wordlist := wordlist wc @ [plain_record line]\<rparr>)"
        using data False Cons.prems by simp
      obtain wc' where "read_wordlist rest 1 (wc\<lparr>wordlist := wordlist wc @ [plain_record line]\<rparr>) = Return wc'"
        and "\<not> isRainbow wc'"
        using plain_stays_plain [of 1 "wc\<lparr>wordlist := wordlist wc @ [plain_record line]\<rparr>" rest] Cons.prems
        by auto
      then show ?thesis
        unfolding r s using False by simp
    qed
  qed
qed

text \<open>
  C4 (as amended): for every wordlist stream, the rainbow flag ends up set if and only if
  the magic line \<^verbatim>\<open>#SHORTSCAN#\<close> comes before every data line, that is, the first line
  that is the magic or is neither blank nor a \<^verbatim>\<open>#\<close> comment is the magic; blank lines
  and comments ahead of it are skipped. A stream that ends the process on a malformed
  line had the flag set.
\<close>

theorem rainbow_flag:
  "(case load_wordlist lines of
      Return wc \<Rightarrow> isRainbow wc = (find significant lines = Some rainbowMagic)
    | Fatal m \<Rightarrow> find significant lines = Some rainbowMagic
    | Panic m \<Rightarrow> False)"
  unfolding load_wordlist_def by (rule flag_iff) simp

theorem rainbow_flag_witness:
  "load_wordlist [rainbowMagic, ''c'' @ [tab] @ ''ABCDEF'' @ [tab] @ ''HTM'' @ [tab] @ ''abcdefgh'' @ [tab] @ ''html'']
     = Return \<lparr>wordlist = [\<lparr>checksums = ''c'', filename = ''abcdefgh'', extension = ''.html'',
                                filename83 = ''ABCDEF'', extension83 = ''HTM''\<rparr>],
               isRainbow = True\<rparr> \<and>
   find significant [rainbowMagic, ''c'' @ [tab] @ ''ABCDEF'' @ [tab] @ ''HTM'' @ [tab] @ ''abcdefgh'' @ [tab] @ ''html'']
     = Some rainbowMagic \<and>
   load_wordlist [''index.html''] = Return \<lparr>wordlist = [plain_record ''index.html''], isRainbow = False\<rparr>"
proof -
  let ?ls = "[rainbowMagic, ''c'' @ [tab] @ ''ABCDEF'' @ [tab] @ ''HTM'' @ [tab] @ ''abcdefgh'' @ [tab] @ ''html'']"
  have f: "find significant ?ls = Some rainbowMagic"
    by (simp add: significant_def)
  have "\<exists>wc. load_wordlist ?ls = Return wc"
    by (simp add: load_wordlist_def rainbowMagic_def tab_def Count_def)
  then obtain wc where l: "load_wordlist ?ls = Return wc"
    by blast
  with rainbow_flag [of ?ls] f have "isRainbow wc"
    by simp
  moreover have "wordlist wc = [\<lparr>checksums = ''c'', filename = ''abcdefgh'', extension = ''.html'',
                                filename83 = ''ABCDEF'', extension83 = ''HTM''\<rparr>]"
    using l by (auto simp: load_wordlist_def rainbowMagic_def tab_def Count_def rainbow_record_def)
  ultimately have "wc = \<lparr>wordlist = [\<lparr>checksums = ''c'', filename = ''abcdefgh'', extension = ''.html'',
                                filename83 = ''ABCDEF'', extension83 = ''HTM''\<rparr>], isRainbow = True\<rparr>"
    by (cases wc) simp
  with l f show ?thesis
    by (simp add: load_wordlist_def rainbowMagic_def)
qed

text \<open>
  A comment ahead of the magic line: the first non-blank line is the comment, not the
  magic, and the flag is set all the same.
\<close>

theorem rainbow_flag_counterexample:
  "load_wordlist [''# my list'', ''#SHORTSCAN#''] = Return \<lparr>wordlist = [], isRainbow = True\<rparr> \<and>
   first_nonblank [''# my list'', ''#SHORTSCAN#''] = Some ''# my list'' \<and>
   ''# my list'' \<noteq> rainbowMagic"
  by (simp add: load_wordlist_def first_nonblank_def rainbowMagic_def)

subsection \<open>Transport failures in the vulnerability probe\<close>








subsection \<open>The autocomplete mode is selected once\<close>

lemma Run_autocomplete_auto:
  "ToLower (Autocomplete args) = ''auto'' \<Longrightarrow>
   Run_autocomplete args = Return (args\<lparr>Autocomplete := ''auto''\<rparr>)"
  by (simp add: Run_autocomplete_def)

lemma auto_probes_append [simp]: "auto_probes (a @ b) = auto_probes a @ auto_probes b"
  by (induction a rule: auto_probes.induct) simp_all

lemma scan_modes_append [simp]: "scan_modes (a @ b) = scan_modes a @ scan_modes b"
  by (induction a rule: scan_modes.induct) simp_all

lemma resolve_settled:
  "Autocomplete args \<noteq> ''auto'' \<Longrightarrow> resolve_autocomplete e args url w tr = (args, w, tr)"
  by (simp add: resolve_autocomplete_def)

lemma resolve_auto:
  "Autocomplete args = ''auto'' \<Longrightarrow>
   resolve_autocomplete e args url w tr
     = (args\<lparr>Autocomplete := (if respond e (fetches w) ''_'' url = Got 405 then ''method'' else ''status'')\<rparr>,
        w\<lparr>fetches := fetches w + 1\<rparr>, tr @ [AutoProbe url])"
  by (cases "respond e (fetches w) ''_'' url")
     (simp_all add: resolve_autocomplete_def fetch_call_def Let_def)

lemma Scan_step_settled:
  assumes "Autocomplete args \<noteq> ''auto''"
  shows "Autocomplete (step_args (Scan_step e later u urls args mk w tr)) = Autocomplete args \<and>
         auto_probes (step_trace (Scan_step e later u urls args mk w tr)) = auto_probes tr \<and>
         set (scan_modes (step_trace (Scan_step e later u urls args mk w tr)))
           \<subseteq> set (scan_modes tr) \<union> {Autocomplete args}"
  using assms
  by (auto simp: Scan_step_def Let_def resolve_settled step_args_def step_trace_def
           split: prod.splits fetched.splits exit.splits)

lemma resolved_neq_auto [simp]: "resolved e w url \<noteq> ''auto''"
  by (simp add: resolved_def)

lemma Scan_step_auto:
  assumes "Autocomplete args = ''auto''"
  shows "(\<exists>en. Scan_step e later u urls args mk w tr = Stop en args tr) \<or>
         (Autocomplete (step_args (Scan_step e later u urls args mk w tr)) = resolved e w (Scan_url u) \<and>
          step_trace (Scan_step e later u urls args mk w tr)
            = tr @ [AutoProbe (Scan_url u), Scanned (Scan_url u) (resolved e w (Scan_url u))])"
  using assms
  by (auto simp: Scan_step_def Let_def resolve_auto resolved_def fetch_call_def
           step_args_def step_trace_def
           split: prod.splits fetched.splits exit.splits)

text \<open>
  Once the mode is not \<^verbatim>\<open>auto\<close> it stays what it is, and no selecting request is made.
\<close>

lemma Scan_loop_settled:
  "Autocomplete args \<noteq> ''auto'' \<Longrightarrow>
   Scan_loop fuel e later urls args mk w tr = (en, args', tr') \<Longrightarrow>
   Autocomplete args' = Autocomplete args \<and> auto_probes tr' = auto_probes tr \<and>
   set (scan_modes tr') \<subseteq> set (scan_modes tr) \<union> {Autocomplete args}"
proof (induction fuel arbitrary: urls args mk w tr)
  case 0
  then show ?case by auto
next
  case (Suc fuel)
  show ?case
  proof (cases urls)
    case Nil
    with Suc.prems show ?thesis by auto
  next
    case (Cons u us)
    note settled = Scan_step_settled [OF Suc.prems(1), of e later u us mk w tr]
    show ?thesis
    proof (cases "Scan_step e later u us args mk w tr")
      case (Stop en1 args1 tr1)
      with Suc.prems(2) Cons settled show ?thesis
        by (auto simp: step_args_def step_trace_def)
    next
      case (Next urls1 args1 mk1 w1 tr1)
      with settled have a: "Autocomplete args1 = Autocomplete args"
        and p: "auto_probes tr1 = auto_probes tr"
        and m: "set (scan_modes tr1) \<subseteq> set (scan_modes tr) \<union> {Autocomplete args}"
        by (simp_all add: step_args_def step_trace_def)
      have "Scan_loop fuel e later urls1 args1 mk1 w1 tr1 = (en, args', tr')"
        using Suc.prems(2) Cons Next by simp
      with Suc.IH [of args1 urls1 mk1 w1 tr1] a Suc.prems(1)
      have "Autocomplete args' = Autocomplete args1 \<and> auto_probes tr' = auto_probes tr1 \<and>
            set (scan_modes tr') \<subseteq> set (scan_modes tr1) \<union> {Autocomplete args1}"
        by simp
      with a p m show ?thesis by auto
    qed
  qed
qed

text \<open>
  C10: when the mode is \<^verbatim>\<open>auto\<close>, a run makes the selecting request at most once, for
  its first URL; the mode becomes \<^verbatim>\<open>method\<close> if that request is answered with 405 and
  \<^verbatim>\<open>status\<close> otherwise, and every URL scanned in the run, a directory found on the way
  or a later URL of the user, reads that same mode.
\<close>

theorem autocomplete_resolved_once:
  "Autocomplete args = ''auto'' \<Longrightarrow>
   Scan_loop fuel e later urls args mk w [] = (en, args', tr) \<Longrightarrow>
   (auto_probes tr = [] \<and> scan_modes tr = [] \<and> args' = args) \<or>
   (auto_probes tr = [Scan_url (hd urls)] \<and>
    Autocomplete args' = resolved e w (Scan_url (hd urls)) \<and>
    (\<forall>m\<in>set (scan_modes tr). m = resolved e w (Scan_url (hd urls))))"
proof (cases fuel)
  case 0
  assume "Scan_loop fuel e later urls args mk w [] = (en, args', tr)"
  with 0 show ?thesis by auto
next
  case (Suc k)
  assume auto: "Autocomplete args = ''auto''"
    and run: "Scan_loop fuel e later urls args mk w [] = (en, args', tr)"
  show ?thesis
  proof (cases urls)
    case Nil
    with run Suc show ?thesis by auto
  next
    case (Cons u us)
    let ?r = "resolved e w (Scan_url u)"
    from Scan_step_auto [OF auto, of e later u us mk w "[]"]
    consider (fatal) en1 where "Scan_step e later u us args mk w [] = Stop en1 args []"
      | (probed) "Autocomplete (step_args (Scan_step e later u us args mk w [])) = ?r"
          "step_trace (Scan_step e later u us args mk w []) = [AutoProbe (Scan_url u), Scanned (Scan_url u) ?r]"
      by auto
    then show ?thesis
    proof cases
      case fatal
      with run Suc Cons show ?thesis by auto
    next
      case probed
      show ?thesis
      proof (cases "Scan_step e later u us args mk w []")
        case (Stop en1 args1 tr1)
        with probed run Suc Cons show ?thesis
          by (auto simp: step_args_def step_trace_def)
      next
        case (Next urls1 args1 mk1 w1 tr1)
        with probed have a: "Autocomplete args1 = ?r"
          and t: "tr1 = [AutoProbe (Scan_url u), Scanned (Scan_url u) ?r]"
          by (simp_all add: step_args_def step_trace_def)
        have "Scan_loop k e later urls1 args1 mk1 w1 tr1 = (en, args', tr)"
          using run Suc Cons Next by simp
        with Scan_loop_settled [of args1 k e later urls1 mk1 w1 tr1 en args' tr] a
        have "Autocomplete args' = ?r \<and> auto_probes tr = auto_probes tr1 \<and>
              set (scan_modes tr) \<subseteq> set (scan_modes tr1) \<union> {?r}"
          by simp
        with t Cons show ?thesis by auto
      qed
    qed
  qed
qed

lemma first_stage_server4:
  "first_stage server4 0 url mk w = Return (blank_ac, mk, w\<lparr>fetches := fetches w + 36, draws := draws w + 36\<rparr>)"
  apply (simp add: first_stage_def pathSuffixes_def httpMethods_def blank_ac_def)
  apply (simp add: negative_loop.simps [of _ _ _ _ 0] rand_Intn_def fetch_call_def server4_def negative_url_def)
  done

lemma url_ok_server4: "url_ok server4 url"
  by (simp add: server4_def)

lemma Scan_loop_server4:
  "Scan_loop 3 server4 no_later_stages [''host'', ''http://other/''] auto_args start_mk start_world []
     = (Finished, auto_args\<lparr>Autocomplete := ''method''\<rparr>,
        [AutoProbe ''https://host/'', Scanned ''https://host/'' ''method'',
         Scanned ''http://other/'' ''method''])"
proof -
  have u1: "Scan_url ''host'' = ''https://host/''"
    by (simp add: Scan_url_def TrimSuffix_def suffix_to_prefix)
  have u2: "Scan_url ''http://other/'' = ''http://other/''"
    by (simp add: Scan_url_def TrimSuffix_def suffix_to_prefix)
  have r1: "respond server4 n ''GET'' ''https://host/.aspx'' = Got 200"
    and r2: "respond server4 n ''GET'' ''http://other/.aspx'' = Got 200"
    and r3: "respond server4 n ''_'' url = Got 405" for n url
    by (simp_all add: server4_def)
  have s1: "Scan_step server4 no_later_stages ''host'' [''http://other/''] auto_args start_mk start_world []
      = Next [''http://other/''] (auto_args\<lparr>Autocomplete := ''method''\<rparr>) start_mk
          \<lparr>fetches = 38, draws = 36\<rparr>
          [AutoProbe ''https://host/'', Scanned ''https://host/'' ''method'']"
    by (simp add: Scan_step_def u1 fetch_call_def resolve_autocomplete_def first_stage_server4
          auto_args_def start_world_def blank_ac_def Let_def r1 r3 no_later_stages_def
          url_ok_server4)
  have s2: "Scan_step server4 no_later_stages ''http://other/'' [] (auto_args\<lparr>Autocomplete := ''method''\<rparr>)
        start_mk \<lparr>fetches = 38, draws = 36\<rparr>
        [AutoProbe ''https://host/'', Scanned ''https://host/'' ''method'']
      = Next [] (auto_args\<lparr>Autocomplete := ''method''\<rparr>) start_mk
          \<lparr>fetches = 75, draws = 72\<rparr>
          [AutoProbe ''https://host/'', Scanned ''https://host/'' ''method'',
           Scanned ''http://other/'' ''method'']"
    by (simp add: Scan_step_def u2 fetch_call_def resolve_autocomplete_def first_stage_server4
          auto_args_def blank_ac_def Let_def r2 r3 no_later_stages_def url_ok_server4)
  show ?thesis
    by (simp add: numeral_3_eq_3 s1 s2)
qed

theorem autocomplete_resolved_once_witness:
  "Autocomplete auto_args = ''auto'' \<and>
   Scan_loop 3 server4 no_later_stages [''host'', ''http://other/''] auto_args start_mk start_world []
     = (Finished, auto_args\<lparr>Autocomplete := ''method''\<rparr>,
        [AutoProbe ''https://host/'', Scanned ''https://host/'' ''method'',
         Scanned ''http://other/'' ''method'']) \<and>
   resolved server4 start_world (Scan_url ''host'') = ''method'' \<and>
   auto_probes [AutoProbe ''https://host/'', Scanned ''https://host/'' ''method'',
                Scanned ''http://other/'' ''method''] = [Scan_url ''host'']"
proof -
  have a: "Autocomplete auto_args = ''auto''"
    by (simp add: auto_args_def)
  from autocomplete_resolved_once [OF a Scan_loop_server4]
  show ?thesis
    using a Scan_loop_server4 by (auto simp: resolved_def server4_def)
qed

end
